theory Spec2Isabelle
  imports Main "HOL-Library.Sublist" "HOL-Library.List_Lexorder" "HOL-Library.Char_ord"
    "HOL-Library.Multiset"
begin

section \<open>The asset server of \<^verbatim>\<open>server.py\<close>\<close>

text \<open>
  The server answers GET requests from three kinds of routes (single files, asset
  listings, asset files) and hands everything else to the static file handler of the
  standard library. This theory embeds \<^verbatim>\<open>safe_resolve\<close>, \<^verbatim>\<open>list_files\<close> and the
  methods of \<^verbatim>\<open>Handler\<close>, over an explicit model of the file system and of the part of
  the handler state (status line, headers, body, log) that the methods write to.

  Scope of the model:
  \<^item> Linux and its paths. A \<^verbatim>\<open>Path\<close> is absolute and is the list of its parts below \<^verbatim>\<open>/\<close>; \<^verbatim>\<open>BASE\<close>
    (the directory of the script) is a parameter of that type.
  \<^item> A Python \<^verbatim>\<open>str\<close> is a HOL string: code points below 256. \<^verbatim>\<open>bytes\<close> are HOL strings
    too (a HOL character is one byte).
  \<^item> A file system is a tree of files, directories and symlinks that does not change
    during a request. The server may read every file and search every directory, so the
    only errors of the system are those of a path: a missing name, a name below a file,
    a name or a path that is too long, too many links.
  \<^item> Exceptions are values. The model follows Python 3.10 to 3.12, where \<^verbatim>\<open>Path.resolve\<close>
    raises \<^verbatim>\<open>RuntimeError\<close> on a symlink loop.
\<close>

subsection \<open>Strings\<close>

text \<open>\<^verbatim>\<open>s.split(c)\<close> for a one-character separator: never empty.\<close>

fun split_sep :: "char \<Rightarrow> string \<Rightarrow> string list" where
  "split_sep c [] = [[]]"
| "split_sep c (x # xs) =
     (if x = c then [] # split_sep c xs
      else (case split_sep c xs of [] \<Rightarrow> [[x]] | w # ws \<Rightarrow> (x # w) # ws))"

definition startswith :: "string \<Rightarrow> string \<Rightarrow> bool" where
  "startswith s p = prefix p s"

definition endswith :: "string \<Rightarrow> string \<Rightarrow> bool" where
  "endswith s e = suffix e s"

definition digit :: "nat \<Rightarrow> char" where
  "digit d = char_of (48 + d)"

text \<open>\<^verbatim>\<open>str(n)\<close> for a non-negative integer.\<close>

fun str_nat :: "nat \<Rightarrow> string" where
  "str_nat n = (if n < 10 then [digit n] else str_nat (n div 10) @ [digit (n mod 10)])"

declare str_nat.simps [simp del]

definition hexdigit :: "nat \<Rightarrow> char" where
  "hexdigit d = (if d < 10 then char_of (48 + d) else char_of (87 + d))"

subsection \<open>The file system\<close>

datatype node = File string | Dir "(string \<times> node) list" | Symlink string

type_synonym path = "string list"

text \<open>
  The exceptions of the calls the server makes. An \<^verbatim>\<open>OSError\<close> is raised as the subclass
  Python has for its error number, or as \<^verbatim>\<open>OSError\<close> itself where there is none.
\<close>

datatype errno = ELOOP | ENAMETOOLONG

datatype py_exn = ValueError | RuntimeError | FileNotFoundError | NotADirectoryError
  | IsADirectoryError | OSError errno

text \<open>\<^verbatim>\<open>except (ValueError, OSError)\<close> also catches the subclasses of \<^verbatim>\<open>OSError\<close>.\<close>

fun caught :: "py_exn \<Rightarrow> bool" where
  "caught RuntimeError = False"
| "caught e = True"

text \<open>
  The limits of Linux: the bytes of a name, the bytes of a path with its final NUL, the
  links one path lookup follows.
\<close>

definition NAME_MAX :: nat where
  "NAME_MAX = 255"

definition PATH_MAX :: nat where
  "PATH_MAX = 4096"

definition MAXSYMLINKS :: nat where
  "MAXSYMLINKS = 40"

text \<open>
  The number of bytes \<^verbatim>\<open>os.fsencode\<close> makes of a name (UTF-8: two bytes for a code point
  from 128 on), and of a path written with a \<^verbatim>\<open>/\<close> before each part.
\<close>

definition fsencode_len :: "string \<Rightarrow> nat" where
  "fsencode_len s = sum_list (map (\<lambda>c. if (of_char c :: nat) < 128 then 1 else 2) s)"

definition path_len :: "path \<Rightarrow> nat" where
  "path_len p = (if p = [] then 1 else sum_list (map (\<lambda>s. Suc (fsencode_len s)) p))"

definition has_nul :: "path \<Rightarrow> bool" where
  "has_nul p = (\<exists>s \<in> set p. CHR 0x00 \<in> set s)"

text \<open>
  The node at a path whose directories are reached without crossing a link, with the
  error of the system when there is none.
\<close>

fun node_at :: "node \<Rightarrow> path \<Rightarrow> py_exn + node" where
  "node_at n [] = Inr n"
| "node_at (Dir es) (s # ss) =
     (if NAME_MAX < fsencode_len s then Inl (OSError ENAMETOOLONG)
      else (case map_of es s of None \<Rightarrow> Inl FileNotFoundError | Some c \<Rightarrow> node_at c ss))"
| "node_at (File d) (s # ss) = Inl NotADirectoryError"
| "node_at (Symlink t) (s # ss) = Inl NotADirectoryError"

text \<open>
  \<^verbatim>\<open>os.lstat\<close>, as \<^verbatim>\<open>realpath\<close> calls it: on a path whose part before the last name is
  already resolved.
\<close>

definition lstat :: "node \<Rightarrow> path \<Rightarrow> py_exn + node" where
  "lstat fs p = (if PATH_MAX \<le> path_len p then Inl (OSError ENAMETOOLONG) else node_at fs p)"

fun symlink_free :: "node \<Rightarrow> bool" where
  "symlink_free (File d) = True"
| "symlink_free (Symlink t) = False"
| "symlink_free (Dir es) = (\<forall>e \<in> set es. symlink_free (snd e))"

definition isabs :: "string \<Rightarrow> bool" where
  "isabs s = startswith s ''/''"

text \<open>
  The path lookup of the system, which \<^verbatim>\<open>os.stat\<close>, \<^verbatim>\<open>open\<close> and \<^verbatim>\<open>os.listdir\<close> run: \<open>cur\<close>
  is the directory reached, the list the names still to look up. Every name must exist
  in a directory, a link is followed (the last one too), and the lookup fails with
  \<^verbatim>\<open>ELOOP\<close> at the link after the last of \<open>links\<close> it may follow.
\<close>

fun namei :: "node \<Rightarrow> nat \<Rightarrow> path \<Rightarrow> string list \<Rightarrow> py_exn + path" where
  "namei fs links cur [] = Inr cur"
| "namei fs links cur (name # rest) =
     (case node_at fs cur of
        Inl e \<Rightarrow> Inl e
      | Inr (Dir es) \<Rightarrow>
          (if name = [] \<or> name = ''.'' then namei fs links cur rest
           else if name = ''..'' then namei fs links (butlast cur) rest
           else if NAME_MAX < fsencode_len name then Inl (OSError ENAMETOOLONG)
           else (case map_of es name of
                   None \<Rightarrow> Inl FileNotFoundError
                 | Some (Symlink target) \<Rightarrow>
                     (case links of
                        0 \<Rightarrow> Inl (OSError ELOOP)
                      | Suc k \<Rightarrow>
                          (if target = [] then Inl FileNotFoundError
                           else namei fs k (if isabs target then [] else cur)
                                  (split_sep CHR ''/'' target @ rest)))
                 | Some c \<Rightarrow> namei fs links (cur @ [name]) rest))
      | Inr (File d) \<Rightarrow> Inl NotADirectoryError
      | Inr (Symlink t) \<Rightarrow> Inl NotADirectoryError)"

text \<open>\<^verbatim>\<open>os.stat\<close>: the node behind a path, links followed.\<close>

definition stat :: "node \<Rightarrow> path \<Rightarrow> py_exn + node" where
  "stat fs p =
     (if has_nul p then Inl ValueError
      else if PATH_MAX \<le> path_len p then Inl (OSError ENAMETOOLONG)
      else (case namei fs MAXSYMLINKS [] p of
              Inl e \<Rightarrow> Inl e
            | Inr q \<Rightarrow> node_at fs q))"

text \<open>
  \<^verbatim>\<open>posixpath.normpath\<close> on parts: empty names and \<^verbatim>\<open>.\<close> are dropped, \<^verbatim>\<open>..\<close> drops the
  part before it.
\<close>

fun normpath :: "path \<Rightarrow> string list \<Rightarrow> path" where
  "normpath cur [] = cur"
| "normpath cur (name # rest) =
     (if name = [] \<or> name = ''.'' then normpath cur rest
      else if name = ''..'' then normpath (butlast cur) rest
      else normpath (cur @ [name]) rest)"

text \<open>
  \<^verbatim>\<open>posixpath.join\<close> of a path and the rest of a string that is being walked: a rest that
  begins with \<^verbatim>\<open>/\<close>, that is with an empty name, replaces the path.
\<close>

definition join_rest :: "string list \<Rightarrow> string list \<Rightarrow> string list" where
  "join_rest p r = (if r \<noteq> [] \<and> hd r = [] then r else p @ r)"

text \<open>The paths of the nodes of a tree, and how many of them \<open>seen\<close> does not list.\<close>

fun all_paths :: "node \<Rightarrow> path list" where
  "all_paths (File d) = [[]]"
| "all_paths (Symlink t) = [[]]"
| "all_paths (Dir es) = [] # concat (map (\<lambda>e. map ((#) (fst e)) (all_paths (snd e))) es)"

definition unseen :: "node \<Rightarrow> (path \<times> path option) list \<Rightarrow> nat" where
  "unseen fs seen = card (set (all_paths fs) - fst ` set seen)"

text \<open>
  \<^verbatim>\<open>posixpath._joinrealpath\<close>, not strict. \<open>cur\<close> is the resolved path so far, the list
  the names still to walk: empty names and \<^verbatim>\<open>.\<close> are skipped, \<^verbatim>\<open>..\<close> drops the last part of
  \<open>cur\<close>, and a name that \<^verbatim>\<open>lstat\<close> does not report as a link (a missing one too) is
  appended. \<open>seen\<close> is the table of the library: a link maps to \<open>None\<close> while its target
  is being resolved and to the resolved path afterwards. The library recurses into the
  target of a link; here \<open>stack\<close> holds, for each link being resolved, the names that
  wait behind it. Meeting a link that is being resolved is a loop: the result is then the
  link joined with all the names that wait, normalised as \<^verbatim>\<open>abspath\<close> does, and \<open>False\<close>.
\<close>

function joinrealpath ::
  "node \<Rightarrow> (path \<times> path option) list \<Rightarrow> (path \<times> string list) list \<Rightarrow> path \<Rightarrow> string list
     \<Rightarrow> path \<times> bool" where
  "joinrealpath fs seen stack cur [] =
     (case stack of
        [] \<Rightarrow> (cur, True)
      | (link, rest) # frames \<Rightarrow> joinrealpath fs ((link, Some cur) # seen) frames cur rest)"
| "joinrealpath fs seen stack cur (name # rest) =
     (if name = [] \<or> name = ''.'' then joinrealpath fs seen stack cur rest
      else if name = ''..'' then joinrealpath fs seen stack (butlast cur) rest
      else (case lstat fs (cur @ [name]) of
              Inr (Symlink target) \<Rightarrow>
                (case map_of seen (cur @ [name]) of
                   Some (Some p) \<Rightarrow> joinrealpath fs seen stack p rest
                 | Some None \<Rightarrow>
                     (normpath [] (foldl join_rest (cur @ [name]) (rest # map snd stack)),
                      False)
                 | None \<Rightarrow>
                     joinrealpath fs ((cur @ [name], None) # seen)
                       ((cur @ [name], rest) # stack)
                       (if isabs target then [] else cur) (split_sep CHR ''/'' target))
            | _ \<Rightarrow> joinrealpath fs seen stack (cur @ [name]) rest))"
  by pat_completeness auto

termination joinrealpath
proof -
  have in_paths: "\<And>fs p n. node_at fs p = Inr n \<Longrightarrow> p \<in> set (all_paths fs)"
  proof -
    fix fs :: node and p :: path and n :: node
    show "node_at fs p = Inr n \<Longrightarrow> p \<in> set (all_paths fs)"
    proof (induction fs p rule: node_at.induct)
      case (1 n)
      then show ?case by (cases n) auto
    next
      case (2 es s ss)
      then obtain c where c: "map_of es s = Some c" "node_at c ss = Inr n"
        by (auto split: if_splits option.splits)
      from c(1) have m: "(s, c) \<in> set es" by (rule map_of_SomeD)
      from 2 c have "ss \<in> set (all_paths c)" by (auto split: if_splits)
      with m show ?case by force
    qed auto
  qed
  have push: "\<And>fs p n seen v. lstat fs p = Inr n \<Longrightarrow> map_of seen p = None \<Longrightarrow>
      unseen fs ((p, v) # seen) < unseen fs seen"
  proof -
    fix fs :: node and p :: path and n :: node and seen :: "(path \<times> path option) list"
      and v :: "path option"
    assume a: "lstat fs p = Inr n" "map_of seen p = None"
    from a(1) have "node_at fs p = Inr n" by (auto simp: lstat_def split: if_splits)
    then have i: "p \<in> set (all_paths fs)" by (rule in_paths)
    from a(2) have o: "p \<notin> fst ` set seen" by (simp add: map_of_eq_None_iff)
    have "set (all_paths fs) - fst ` set ((p, v) # seen)
        = (set (all_paths fs) - fst ` set seen) - {p}" by auto
    moreover have "p \<in> set (all_paths fs) - fst ` set seen" using i o by simp
    ultimately show "unseen fs ((p, v) # seen) < unseen fs seen"
      unfolding unseen_def by (metis card_Diff1_less finite_Diff finite_set)
  qed
  have pop: "\<And>fs e seen. unseen fs (e # seen) < unseen fs seen
      \<or> unseen fs (e # seen) = unseen fs seen"
  proof -
    fix fs :: node and e :: "path \<times> path option" and seen :: "(path \<times> path option) list"
    have "unseen fs (e # seen) \<le> unseen fs seen"
      unfolding unseen_def by (rule card_mono) auto
    then show "unseen fs (e # seen) < unseen fs seen \<or> unseen fs (e # seen) = unseen fs seen"
      by auto
  qed
  show ?thesis
    apply (relation "measures [\<lambda>(fs, seen, stack, cur, rest). unseen fs seen,
      \<lambda>(fs, seen, stack, cur, rest). length stack,
      \<lambda>(fs, seen, stack, cur, rest). length rest]")
           apply (simp_all add: push)
    apply (metis pop)
    done
qed

text \<open>
  \<^verbatim>\<open>Path.resolve()\<close>: \<^verbatim>\<open>realpath\<close>, then a \<^verbatim>\<open>stat\<close> of the result whose only purpose is to
  find a loop, raised as \<^verbatim>\<open>RuntimeError\<close>; any other \<^verbatim>\<open>OSError\<close> of it is dropped. A NUL
  character in a name makes the first \<^verbatim>\<open>lstat\<close> or \<^verbatim>\<open>stat\<close> that meets it raise
  \<^verbatim>\<open>ValueError\<close>, and one of them meets every name.
\<close>

definition resolve :: "node \<Rightarrow> path \<Rightarrow> py_exn + path" where
  "resolve fs p =
     (if has_nul p then Inl ValueError
      else (let s = fst (joinrealpath fs [] [] [] p) in
            case stat fs s of
              Inl (OSError ELOOP) \<Rightarrow> Inl RuntimeError
            | Inl ValueError \<Rightarrow> Inl ValueError
            | _ \<Rightarrow> Inr s))"

text \<open>
  \<^verbatim>\<open>Path.exists()\<close>: \<^verbatim>\<open>False\<close> for a \<^verbatim>\<open>ValueError\<close> and for the error numbers
  \<^verbatim>\<open>pathlib\<close> ignores (\<^verbatim>\<open>ENOENT\<close>, \<^verbatim>\<open>ENOTDIR\<close>, \<^verbatim>\<open>ELOOP\<close>); any other \<^verbatim>\<open>OSError\<close> is raised
  again.
\<close>

fun ignore_error :: "py_exn \<Rightarrow> bool" where
  "ignore_error FileNotFoundError = True"
| "ignore_error NotADirectoryError = True"
| "ignore_error (OSError ELOOP) = True"
| "ignore_error e = False"

definition exists :: "node \<Rightarrow> path \<Rightarrow> py_exn + bool" where
  "exists fs p =
     (case stat fs p of
        Inr n \<Rightarrow> Inr True
      | Inl e \<Rightarrow> (if e = ValueError \<or> ignore_error e then Inr False else Inl e))"

definition read_bytes :: "node \<Rightarrow> path \<Rightarrow> py_exn + string" where
  "read_bytes fs p =
     (case stat fs p of
        Inl e \<Rightarrow> Inl e
      | Inr (File d) \<Rightarrow> Inr d
      | Inr (Dir es) \<Rightarrow> Inl IsADirectoryError
      | Inr (Symlink t) \<Rightarrow> Inl (OSError ELOOP))"

text \<open>\<^verbatim>\<open>os.listdir\<close>: the names of the entries, in the order the system gives them.\<close>

definition listdir :: "node \<Rightarrow> path \<Rightarrow> py_exn + string list" where
  "listdir fs p =
     (case stat fs p of
        Inl e \<Rightarrow> Inl e
      | Inr (Dir es) \<Rightarrow> Inr (map fst es)
      | Inr (File d) \<Rightarrow> Inl NotADirectoryError
      | Inr (Symlink t) \<Rightarrow> Inl (OSError ELOOP))"

subsection \<open>Paths\<close>

text \<open>The parts \<^verbatim>\<open>pathlib\<close> keeps of a string: no empty part and no \<^verbatim>\<open>.\<close>, but every \<^verbatim>\<open>..\<close>.\<close>

definition parse_parts :: "string \<Rightarrow> path" where
  "parse_parts s = filter (\<lambda>x. x \<noteq> [] \<and> x \<noteq> ''.'') (split_sep CHR ''/'' s)"

text \<open>\<^verbatim>\<open>directory / filename\<close>: an absolute right operand replaces the left one.\<close>

definition truediv :: "path \<Rightarrow> string \<Rightarrow> path" where
  "truediv directory filename =
     (if isabs filename then parse_parts filename else directory @ parse_parts filename)"

definition is_relative_to :: "path \<Rightarrow> path \<Rightarrow> bool" where
  "is_relative_to p other = prefix other p"

subsection \<open>\<^verbatim>\<open>safe_resolve\<close> and \<^verbatim>\<open>list_files\<close>\<close>

text \<open>
  The result is \<open>Inr (Some p)\<close> for a returned path, \<open>Inr None\<close> for \<^verbatim>\<open>None\<close> and
  \<open>Inl e\<close> for an exception the \<^verbatim>\<open>except\<close> clause does not catch.
\<close>

definition safe_resolve :: "node \<Rightarrow> path \<Rightarrow> string \<Rightarrow> py_exn + path option" where
  "safe_resolve fs directory filename =
     (case resolve fs (truediv directory filename) of
        Inl e \<Rightarrow> (if caught e then Inr None else Inl e)
      | Inr resolved \<Rightarrow>
          (case resolve fs directory of
             Inl e \<Rightarrow> (if caught e then Inr None else Inl e)
           | Inr root \<Rightarrow>
               (if is_relative_to resolved root then Inr (Some resolved) else Inr None)))"

text \<open>
  \<^verbatim>\<open>sorted\<close> on strings is \<open>sort\<close> in the order of \<open>string\<close>: lexicographic, characters
  compared by their codes, a proper prefix first, as Python compares \<^verbatim>\<open>str\<close>.
\<close>

definition list_files :: "node \<Rightarrow> path \<Rightarrow> string \<Rightarrow> py_exn + string list" where
  "list_files fs directory ext =
     (case exists fs directory of
        Inl e \<Rightarrow> Inl e
      | Inr False \<Rightarrow> Inr []
      | Inr True \<Rightarrow>
          (case listdir fs directory of
             Inl e \<Rightarrow> Inl e
           | Inr names \<Rightarrow> Inr (sort (filter (\<lambda>f. endswith f ext) names))))"

subsection \<open>The route tables\<close>

definition GAME :: "path \<Rightarrow> path" where
  "GAME base = base @ [''game_data'']"

type_synonym asset_routes = "(string \<times> path \<times> string \<times> string) list"
type_synonym single_routes = "(string \<times> path \<times> string) list"

definition ASSET_ROUTES :: "path \<Rightarrow> asset_routes" where
  "ASSET_ROUTES base =
     [(''hlod'', GAME base @ [''hlod''], ''.obj'', ''model/obj''),
      (''terrain'', GAME base @ [''terrain''], ''.obj'', ''model/obj''),
      (''hlod_all'', GAME base @ [''hlod_all''], ''.obj'', ''model/obj''),
      (''textures'', GAME base @ [''textures''], ''.png'', ''image/png'')]"

definition SINGLE_FILE_ROUTES :: "path \<Rightarrow> single_routes" where
  "SINGLE_FILE_ROUTES base =
     [(''/manifest'', base @ [''manifests'', ''android_manifest.json''], ''application/json''),
      (''/all_hlod_manifest'', base @ [''manifests'', ''all_hlod_manifest.json''],
         ''application/json''),
      (''/ocean.obj'', base @ [''ocean.obj''], ''model/obj''),
      (''/ocean.glb'', base @ [''ocean.glb''], ''model/gltf-binary''),
      (''/skybox.png'', base @ [''skybox.png''], ''image/png''),
      (''/overrides.json'', base @ [''overrides.json''], ''application/json'')]"

subsection \<open>The handler state\<close>

datatype arg = S string | I nat

fun str :: "arg \<Rightarrow> string" where
  "str (S s) = s"
| "str (I n) = str_nat n"

text \<open>What goes to the client after the headers: bytes, or the library's error page.\<close>

datatype chunk = Bytes string | ErrorPage nat

text \<open>
  The fields of the handler a request reads and writes: the request line and
  \<^verbatim>\<open>self.path\<close>, the status line and the headers sent so far (without the \<^verbatim>\<open>Server\<close> and
  \<^verbatim>\<open>Date\<close> headers of the library), what was written to \<^verbatim>\<open>wfile\<close>, and the calls that
  reached the library's \<^verbatim>\<open>log_message\<close>, which prints them.
\<close>

record handler =
  requestline :: string
  path :: string
  status :: "nat option"
  headers :: "(string \<times> string) list"
  wfile :: "chunk list"
  log :: "(string \<times> arg list) list"

text \<open>\<^verbatim>\<open>Handler.log_message\<close>.\<close>

definition log_message :: "string \<Rightarrow> arg list \<Rightarrow> handler \<Rightarrow> handler" where
  "log_message format args h =
     (if list_ex (\<lambda>a. str a = ''404'') args then h
      else h\<lparr>log := log h @ [(format, args)]\<rparr>)"

text \<open>
  The methods of \<^verbatim>\<open>BaseHTTPRequestHandler\<close> the handler calls, as the standard library
  defines them: \<^verbatim>\<open>send_response\<close> logs the request with size \<^verbatim>\<open>-\<close> and sends the status
  line; \<^verbatim>\<open>send_error\<close> logs the error with the reason phrase of the code, sends the
  response with \<^verbatim>\<open>Connection: close\<close> and the error page. The page is kept abstract, and its
  \<^verbatim>\<open>Content-Type\<close> and \<^verbatim>\<open>Content-Length\<close> headers are left out with it; of the reason
  phrases only the one of 404, the code the server sends, is listed.
\<close>

definition log_request :: "nat \<Rightarrow> handler \<Rightarrow> handler" where
  "log_request code h =
     log_message ''\"%s\" %s %s'' [S (requestline h), S (str_nat code), S ''-''] h"

definition log_error :: "string \<Rightarrow> arg list \<Rightarrow> handler \<Rightarrow> handler" where
  "log_error format args h = log_message format args h"

definition send_response :: "nat \<Rightarrow> handler \<Rightarrow> handler" where
  "send_response code h = (log_request code h)\<lparr>status := Some code\<rparr>"

definition send_header :: "string \<Rightarrow> string \<Rightarrow> handler \<Rightarrow> handler" where
  "send_header keyword v h = h\<lparr>headers := headers h @ [(keyword, v)]\<rparr>"

definition wfile_write :: "chunk \<Rightarrow> handler \<Rightarrow> handler" where
  "wfile_write c h = h\<lparr>wfile := wfile h @ [c]\<rparr>"

text \<open>\<^verbatim>\<open>Handler.end_headers\<close>.\<close>

definition end_headers :: "handler \<Rightarrow> handler" where
  "end_headers h = send_header ''Access-Control-Allow-Origin'' ''*'' h"

definition shortmsg :: "nat \<Rightarrow> string" where
  "shortmsg code = (if code = 404 then ''Not Found'' else ''???'')"

definition send_error :: "nat \<Rightarrow> handler \<Rightarrow> handler" where
  "send_error code h =
     wfile_write (ErrorPage code)
       (end_headers
         (send_header ''Connection'' ''close''
           (send_response code
             (log_error ''code %d, message %s'' [I code, S (shortmsg code)] h))))"

subsection \<open>The responses\<close>

text \<open>
  \<^verbatim>\<open>json.dumps\<close> of a list of strings, with the default \<^verbatim>\<open>ensure_ascii\<close>: the result is
  ASCII, so \<^verbatim>\<open>encode()\<close> leaves it as it is.
\<close>

definition json_char :: "char \<Rightarrow> string" where
  "json_char c =
     (if c = CHR ''\"'' then [CHR 0x5C, CHR ''\"'']
      else if c = CHR 0x5C then [CHR 0x5C, CHR 0x5C]
      else if c = CHR 0x0A then [CHR 0x5C, CHR ''n'']
      else if c = CHR 0x0D then [CHR 0x5C, CHR ''r'']
      else if c = CHR 0x09 then [CHR 0x5C, CHR ''t'']
      else if c = CHR 0x08 then [CHR 0x5C, CHR ''b'']
      else if c = CHR 0x0C then [CHR 0x5C, CHR ''f'']
      else if 32 \<le> (of_char c :: nat) \<and> (of_char c :: nat) \<le> 126 then [c]
      else [CHR 0x5C, CHR ''u'', CHR ''0'', CHR ''0'',
            hexdigit (of_char c div 16), hexdigit (of_char c mod 16)])"

definition json_str :: "string \<Rightarrow> string" where
  "json_str s = [CHR ''\"''] @ concat (map json_char s) @ [CHR ''\"'']"

fun join_comma :: "string list \<Rightarrow> string" where
  "join_comma [] = []"
| "join_comma [x] = x"
| "join_comma (x # y # ys) = x @ '', '' @ join_comma (y # ys)"

definition json_dumps :: "string list \<Rightarrow> string" where
  "json_dumps xs = ''['' @ join_comma (map json_str xs) @ '']''"

datatype outcome = Done handler | Raised py_exn handler | Super handler

text \<open>\<^verbatim>\<open>Handler._serve_json\<close>.\<close>

definition serve_json :: "string list \<Rightarrow> handler \<Rightarrow> handler" where
  "serve_json data h =
     (let body = json_dumps data in
      wfile_write (Bytes body)
        (end_headers
          (send_header ''Content-Length'' (str_nat (length body))
            (send_header ''Content-Type'' ''application/json''
              (send_response 200 h)))))"

text \<open>
  \<^verbatim>\<open>Handler._serve_file\<close>: nothing catches what \<^verbatim>\<open>exists\<close> or \<^verbatim>\<open>read_bytes\<close> raises.
\<close>

definition serve_file :: "node \<Rightarrow> path \<Rightarrow> string \<Rightarrow> handler \<Rightarrow> outcome" where
  "serve_file fs p ctype h =
     (case exists fs p of
        Inl e \<Rightarrow> Raised e h
      | Inr False \<Rightarrow> Done (send_error 404 h)
      | Inr True \<Rightarrow>
          (case read_bytes fs p of
             Inl e \<Rightarrow> Raised e h
           | Inr data \<Rightarrow>
               Done (wfile_write (Bytes data)
                 (end_headers
                   (send_header ''Cache-Control'' ''public, max-age=3600''
                     (send_header ''Content-Length'' (str_nat (length data))
                       (send_header ''Content-Type'' ctype
                         (send_response 200 h))))))))"

subsection \<open>\<^verbatim>\<open>Handler.do_GET\<close>\<close>

text \<open>
  The loop over \<^verbatim>\<open>ASSET_ROUTES.items()\<close>, in the order of the table: \<open>None\<close> when no
  prefix matches and the loop ends.
\<close>

fun asset_file :: "asset_routes \<Rightarrow> node \<Rightarrow> string \<Rightarrow> handler \<Rightarrow> outcome option" where
  "asset_file [] fs p h = None"
| "asset_file ((name, directory, ext, ctype) # routes) fs p h =
     (let pre = ''/'' @ name @ ''/'' in
      if startswith p pre then
        (let filename = drop (length pre) p in
         case safe_resolve fs directory filename of
           Inl e \<Rightarrow> Some (Raised e h)
         | Inr (Some resolved) \<Rightarrow> Some (serve_file fs resolved ctype h)
         | Inr None \<Rightarrow> Some (Done (send_error 404 h)))
      else asset_file routes fs p h)"

text \<open>
  The dispatcher over any two route tables; \<open>Super\<close> is the call of
  \<^verbatim>\<open>SimpleHTTPRequestHandler.do_GET\<close>, with \<^verbatim>\<open>self.path\<close> as the handler has it then.
\<close>

definition dispatch :: "single_routes \<Rightarrow> asset_routes \<Rightarrow> node \<Rightarrow> handler \<Rightarrow> outcome" where
  "dispatch singles assets fs h =
     (let p = hd (split_sep CHR ''?'' (path h)) in
      case map_of singles p of
        Some (fpath, ctype) \<Rightarrow> serve_file fs fpath ctype h
      | None \<Rightarrow>
          (case (if startswith p ''/list_'' then map_of assets (drop 6 p) else None) of
             Some (directory, ext, ctype) \<Rightarrow>
               (case list_files fs directory ext of
                  Inl e \<Rightarrow> Raised e h
                | Inr names \<Rightarrow> Done (serve_json names h))
           | None \<Rightarrow>
               (case asset_file assets fs p h of
                  Some out \<Rightarrow> out
                | None \<Rightarrow> Super (if p = ''/'' then h\<lparr>path := ''/index.html''\<rparr> else h))))"

definition do_GET :: "path \<Rightarrow> node \<Rightarrow> handler \<Rightarrow> outcome" where
  "do_GET base fs h = dispatch (SINGLE_FILE_ROUTES base) (ASSET_ROUTES base) fs h"

text \<open>
  A handler that has parsed the request line of a GET and sent nothing yet. The library
  sets \<^verbatim>\<open>self.path\<close> to the target of the request line, with a leading \<^verbatim>\<open>//\<close> reduced to
  one \<^verbatim>\<open>/\<close>.
\<close>

definition request :: "string \<Rightarrow> string \<Rightarrow> handler" where
  "request target version =
     \<lparr>requestline = ''GET '' @ target @ '' '' @ version,
      path = (if startswith target ''//''
              then ''/'' @ dropWhile (\<lambda>c. c = CHR ''/'') target else target),
      status = None, headers = [], wfile = [], log = []\<rparr>"

subsection \<open>Notions used in the statements\<close>

text \<open>
  A path as \<^verbatim>\<open>pathlib\<close> and the system give it when nothing is left to normalise: no
  empty part, no \<^verbatim>\<open>.\<close>, no \<^verbatim>\<open>..\<close>, no NUL character.
\<close>

definition plain :: "path \<Rightarrow> bool" where
  "plain p = (\<forall>s \<in> set p. s \<noteq> [] \<and> s \<noteq> ''.'' \<and> s \<noteq> ''..'' \<and> CHR 0x00 \<notin> set s)"


text \<open>The body of the loop over the asset routes, for the route whose prefix matched.\<close>

definition asset_outcome :: "node \<Rightarrow> path \<Rightarrow> string \<Rightarrow> string \<Rightarrow> handler \<Rightarrow> outcome" where
  "asset_outcome fs d ct filename h =
    (case safe_resolve fs d filename of
       Inl e \<Rightarrow> Raised e h
     | Inr None \<Rightarrow> Done (send_error 404 h)
     | Inr (Some q) \<Rightarrow> serve_file fs q ct h)"

text \<open>
  Two file systems with the server installed in \<^verbatim>\<open>/srv\<close>. The first has no symlink. The
  second has two: \<^verbatim>\<open>/srv/secret.obj\<close> points into the \<^verbatim>\<open>hlod\<close> directory, and
  \<^verbatim>\<open>out\<close> in the \<^verbatim>\<open>hlod\<close> directory points to \<^verbatim>\<open>/etc\<close>.
\<close>

definition plain_fs :: node where
  "plain_fs = Dir [(''srv'', Dir [(''secret.obj'', File ''secret''),
      (''game_data'', Dir [(''hlod'', Dir [(''b.obj'', File ''v 1 1 1''),
          (''a.obj'', File ''v 0 0 0''), (''c.txt'', File ''notes''),
          (''sub'', Dir [(''d.obj'', File ''v 2 2 2'')])])])])]"

definition linked_fs :: node where
  "linked_fs = Dir [(''etc'', Dir [(''passwd'', File ''root:x:0:0'')]),
     (''srv'', Dir [(''secret.obj'', Symlink ''game_data/hlod/a.obj''),
      (''game_data'', Dir [(''hlod'', Dir [(''a.obj'', File ''v 0 0 0''),
          (''out'', Symlink ''/etc'')])])])]"


text \<open>Whether the request was handed to the static handler of the library.\<close>

fun is_super :: "outcome \<Rightarrow> bool" where
  "is_super (Super h) = True"
| "is_super (Done h) = False"
| "is_super (Raised e h) = False"

text \<open>An outcome with \<^verbatim>\<open>self.path\<close> set back, to compare two requests.\<close>

fun with_path :: "string \<Rightarrow> outcome \<Rightarrow> outcome" where
  "with_path x (Done h) = Done (h\<lparr>path := x\<rparr>)"
| "with_path x (Raised e h) = Raised e (h\<lparr>path := x\<rparr>)"
| "with_path x (Super h) = Super (h\<lparr>path := x\<rparr>)"

text \<open>
  A directory with the three entries \<^verbatim>\<open>b.obj\<close>, \<^verbatim>\<open>a.obj\<close>, \<^verbatim>\<open>c.txt\<close>, in that order, and
  a table of single files whose one key is also the path of an asset file.
\<close>

definition terrain_fs :: node where
  "terrain_fs = Dir [(''srv'', Dir [(''game_data'', Dir [(''terrain'',
      Dir [(''b.obj'', File ''v 1 1 1''), (''a.obj'', File ''v 0 0 0''),
           (''c.txt'', File ''notes'')])])])]"

definition pinned_routes :: single_routes where
  "pinned_routes = [(''/hlod/a.obj'', [''srv'', ''secret.obj''], ''model/obj'')]"

section \<open>Properties\<close>

subsection \<open>Splitting, and walking a file system without symlinks\<close>

lemma split_sep_nonempty: "split_sep c s \<noteq> []"
  by (induction s) (auto split: list.splits)

lemma hd_split_sep: "hd (split_sep c s) = takeWhile (\<lambda>x. x \<noteq> c) s"
  by (induction s) (auto simp: split_sep_nonempty split: list.splits)


lemma node_at_symlink_free: "symlink_free fs \<Longrightarrow> node_at fs p \<noteq> Inr (Symlink t)"
proof (induction fs p rule: node_at.induct)
  case (2 es s ss)
  show ?case
  proof (cases "map_of es s")
    case None
    then show ?thesis by simp
  next
    case (Some c)
    then have "(s, c) \<in> set es" by (rule map_of_SomeD)
    with "2.prems" have "symlink_free c" by auto
    with "2.IH" Some show ?thesis by simp
  qed
qed auto

lemma lstat_symlink_free: "symlink_free fs \<Longrightarrow> lstat fs p \<noteq> Inr (Symlink t)"
  by (simp add: lstat_def node_at_symlink_free)

lemma node_at_not_loop: "node_at fs p \<noteq> Inl (OSError ELOOP)"
  by (induction fs p rule: node_at.induct) (auto split: option.splits)

lemma node_at_not_value: "node_at fs p \<noteq> Inl ValueError"
  by (induction fs p rule: node_at.induct) (auto split: option.splits)

lemma node_at_snoc:
  "node_at fs cur = Inr (Dir es) \<Longrightarrow> \<not> NAME_MAX < fsencode_len name \<Longrightarrow>
   map_of es name = Some c \<Longrightarrow> node_at fs (cur @ [name]) = Inr c"
proof (induction fs cur rule: node_at.induct)
  case (1 n)
  then show ?case by simp
next
  case (2 es' s ss)
  then show ?case by (auto split: if_splits option.splits)
qed auto

lemma namei_symlink_free:
  "symlink_free fs \<Longrightarrow> namei fs k cur rest \<noteq> Inl (OSError ELOOP)
     \<and> namei fs k cur rest \<noteq> Inl ValueError"
proof (induction rest arbitrary: cur)
  case Nil
  then show ?case by simp
next
  case (Cons name rest)
  show ?case
  proof (cases "node_at fs cur")
    case (Inl e)
    with node_at_not_loop [of fs cur] node_at_not_value [of fs cur] show ?thesis by auto
  next
    case (Inr n)
    show ?thesis
    proof (cases n)
      case (Dir es)
      have nl: "\<And>t. map_of es name = Some (Symlink t) \<Longrightarrow> NAME_MAX < fsencode_len name"
      proof (rule ccontr)
        fix t
        assume m: "map_of es name = Some (Symlink t)" and l: "\<not> NAME_MAX < fsencode_len name"
        from Inr Dir have "node_at fs cur = Inr (Dir es)" by simp
        from node_at_snoc [OF this l m] node_at_symlink_free [OF Cons.prems]
        show False by blast
      qed
      from Inr Dir Cons.IH [OF Cons.prems] nl show ?thesis
        by (auto split: option.splits node.splits)
    qed (use Inr in auto)
  qed
qed

lemma stat_symlink_free:
  "symlink_free fs \<Longrightarrow> stat fs p \<noteq> Inl (OSError ELOOP)"
  using namei_symlink_free [of fs MAXSYMLINKS "[]" p] node_at_not_loop
  by (auto simp: stat_def split: sum.splits)

lemma stat_not_value: "symlink_free fs \<Longrightarrow> \<not> has_nul p \<Longrightarrow> stat fs p \<noteq> Inl ValueError"
  using namei_symlink_free [of fs MAXSYMLINKS "[]" p] node_at_not_value
  by (auto simp: stat_def split: sum.splits)

lemma joinrealpath_no_links:
  "symlink_free fs \<Longrightarrow> joinrealpath fs seen [] cur xs = (normpath cur xs, True)"
proof (induction xs arbitrary: cur)
  case Nil
  then show ?case by simp
next
  case (Cons name xs)
  from Cons.prems have nl: "\<And>t. lstat fs (cur @ [name]) \<noteq> Inr (Symlink t)"
    by (rule lstat_symlink_free)
  from Cons show ?case
    using nl by (auto split: sum.splits node.splits)
qed


lemma set_butlast_subset: "set (butlast xs) \<subseteq> set xs"
  by (induction xs) auto

lemma set_normpath: "set (normpath cur xs) \<subseteq> set cur \<union> set xs"
proof (induction xs arbitrary: cur)
  case Nil
  then show ?case by simp
next
  case (Cons name xs)
  have "set (normpath (butlast cur) xs) \<subseteq> set cur \<union> set xs"
    using Cons [of "butlast cur"] set_butlast_subset [of cur] by blast
  moreover have "set (normpath (cur @ [name]) xs) \<subseteq> insert name (set cur \<union> set xs)"
    using Cons [of "cur @ [name]"] by auto
  ultimately show ?case using Cons [of cur] by auto
qed

lemma has_nul_normpath: "\<not> has_nul p \<Longrightarrow> \<not> has_nul (normpath [] p)"
  using set_normpath [of "[]" p] by (auto simp: has_nul_def)

lemma resolve_no_links:
  assumes "symlink_free fs" "\<not> has_nul p"
  shows "resolve fs p = Inr (normpath [] p)"
proof -
  have j: "fst (joinrealpath fs [] [] [] p) = normpath [] p"
    using assms(1) by (simp add: joinrealpath_no_links)
  have "stat fs (normpath [] p) \<noteq> Inl (OSError ELOOP)"
    using assms(1) by (rule stat_symlink_free)
  moreover have "stat fs (normpath [] p) \<noteq> Inl ValueError"
    using assms has_nul_normpath by (simp add: stat_not_value)
  ultimately show ?thesis using assms(2) j
    by (auto simp: resolve_def Let_def split: sum.splits py_exn.splits errno.splits)
qed

lemma plain_filter: "plain p \<Longrightarrow> filter (\<lambda>x. x \<noteq> [] \<and> x \<noteq> ''.'') p = p"
  by (induction p) (auto simp: plain_def)

lemma plain_no_nul: "plain p \<Longrightarrow> \<not> has_nul p"
  by (auto simp: plain_def has_nul_def)

lemma plain_append: "plain (p @ q) = (plain p \<and> plain q)"
  by (auto simp: plain_def)

lemma normpath_plain: "plain xs \<Longrightarrow> normpath cur xs = cur @ xs"
  by (induction xs arbitrary: cur) (auto simp: plain_def)

lemma resolve_plain: "symlink_free fs \<Longrightarrow> plain p \<Longrightarrow> resolve fs p = Inr p"
  using resolve_no_links [of fs p] normpath_plain [of p "[]"] by (simp add: plain_no_nul)


subsection \<open>The asset routes of the dispatcher\<close>

lemma asset_route_cases:
  assumes r: "(name, d, ext, ct) \<in> set (ASSET_ROUTES base)"
  shows "(name = ''hlod'' \<and> d = GAME base @ [''hlod''] \<and> ext = ''.obj'' \<and> ct = ''model/obj'')
       \<or> (name = ''terrain'' \<and> d = GAME base @ [''terrain''] \<and> ext = ''.obj'' \<and> ct = ''model/obj'')
       \<or> (name = ''hlod_all'' \<and> d = GAME base @ [''hlod_all''] \<and> ext = ''.obj'' \<and> ct = ''model/obj'')
       \<or> (name = ''textures'' \<and> d = GAME base @ [''textures''] \<and> ext = ''.png'' \<and> ct = ''image/png'')"
  using r unfolding ASSET_ROUTES_def by simp

lemma do_GET_hlod:
  assumes p: "hd (split_sep CHR ''?'' (path h)) = ''/hlod/'' @ filename"
  shows "do_GET base fs h = asset_outcome fs (GAME base @ [''hlod'']) ''model/obj'' filename h"
  using p by (simp add: do_GET_def dispatch_def SINGLE_FILE_ROUTES_def ASSET_ROUTES_def
      startswith_def asset_outcome_def Let_def split: sum.splits option.splits)

lemma do_GET_terrain:
  assumes p: "hd (split_sep CHR ''?'' (path h)) = ''/terrain/'' @ filename"
  shows "do_GET base fs h = asset_outcome fs (GAME base @ [''terrain'']) ''model/obj'' filename h"
  using p by (simp add: do_GET_def dispatch_def SINGLE_FILE_ROUTES_def ASSET_ROUTES_def
      startswith_def asset_outcome_def Let_def split: sum.splits option.splits)

lemma do_GET_hlod_all:
  assumes p: "hd (split_sep CHR ''?'' (path h)) = ''/hlod_all/'' @ filename"
  shows "do_GET base fs h = asset_outcome fs (GAME base @ [''hlod_all'']) ''model/obj'' filename h"
  using p by (simp add: do_GET_def dispatch_def SINGLE_FILE_ROUTES_def ASSET_ROUTES_def
      startswith_def asset_outcome_def Let_def split: sum.splits option.splits)

lemma do_GET_textures:
  assumes p: "hd (split_sep CHR ''?'' (path h)) = ''/textures/'' @ filename"
  shows "do_GET base fs h = asset_outcome fs (GAME base @ [''textures'']) ''image/png'' filename h"
  using p by (simp add: do_GET_def dispatch_def SINGLE_FILE_ROUTES_def ASSET_ROUTES_def
      startswith_def asset_outcome_def Let_def split: sum.splits option.splits)

lemma do_GET_asset:
  assumes p: "hd (split_sep CHR ''?'' (path h)) = ''/'' @ name @ ''/'' @ filename"
    and r: "(name, d, ext, ct) \<in> set (ASSET_ROUTES base)"
  shows "do_GET base fs h = asset_outcome fs d ct filename h"
  using asset_route_cases [OF r] p
    do_GET_hlod [of h filename base fs] do_GET_terrain [of h filename base fs]
    do_GET_hlod_all [of h filename base fs] do_GET_textures [of h filename base fs]
  by (elim disjE conjE) simp_all


subsection \<open>Confinement\<close>














subsection \<open>Failures while serving\<close>

text \<open>
  C3 at \<^verbatim>\<open>GET /hlod/\<close>: the file name is empty, \<^verbatim>\<open>safe_resolve\<close> returns the \<^verbatim>\<open>hlod\<close>
  directory itself, the directory exists, and \<^verbatim>\<open>read_bytes\<close> raises
  \<^verbatim>\<open>IsADirectoryError\<close>, which nothing catches: the request ends with the exception and
  no response, not with 404.
\<close>

theorem serve_directory_raises:
  "do_GET [''srv''] linked_fs (request ''/hlod/'' ''HTTP/1.1'')
     = Raised IsADirectoryError (request ''/hlod/'' ''HTTP/1.1'')"
  by code_simp

lemma split_sep_none: "c \<notin> set s \<Longrightarrow> split_sep c s = [s]"
  by (induction s) auto

lemma fsencode_len_replicate:
  "fsencode_len (replicate n c) = n * (if (of_char c :: nat) < 128 then 1 else 2)"
  by (induction n) (auto simp: fsencode_len_def)

lemma long_name_not_dots:
  assumes "NAME_MAX < fsencode_len f"
  shows "f \<noteq> [] \<and> f \<noteq> ''.'' \<and> f \<noteq> ''..''"
  using assms by (auto simp: NAME_MAX_def fsencode_len_def)

lemma safe_resolve_plain_parts:
  assumes "symlink_free fs" "plain R" "plain (parse_parts C)" "\<not> isabs C"
  shows "safe_resolve fs R C = Inr (Some (R @ parse_parts C))"
proof -
  from assms(2,3) have "plain (R @ parse_parts C)" by (simp add: plain_append)
  then have "resolve fs (R @ parse_parts C) = Inr (R @ parse_parts C)"
    using assms(1) resolve_plain by blast
  moreover have "resolve fs R = Inr R" using assms(1,2) by (rule resolve_plain)
  ultimately show ?thesis using assms(4)
    by (simp add: safe_resolve_def truediv_def is_relative_to_def)
qed

lemma stat_long_name:
  assumes l: "NAME_MAX < fsencode_len f" and n: "CHR 0x00 \<notin> set f"
    and b: "fsencode_len f < 4000"
  shows "stat plain_fs [''srv'', ''game_data'', ''hlod'', f] = Inl (OSError ENAMETOOLONG)"
proof -
  note d = long_name_not_dots [OF l]
  have a: "\<not> has_nul [''srv'', ''game_data'', ''hlod'', f]"
    using n by (simp add: has_nul_def)
  have p: "\<not> PATH_MAX \<le> path_len [''srv'', ''game_data'', ''hlod'', f]"
    using b by (simp add: path_len_def PATH_MAX_def fsencode_len_def)
  have "namei plain_fs MAXSYMLINKS [] [''srv'', ''game_data'', ''hlod'', f]
      = Inl (OSError ENAMETOOLONG)"
    using l d by (simp add: plain_fs_def NAME_MAX_def fsencode_len_def)
  with a p show ?thesis by (simp add: stat_def)
qed

lemma long_name_request:
  assumes l: "NAME_MAX < fsencode_len f" and n: "CHR 0x00 \<notin> set f"
    and s: "CHR ''/'' \<notin> set f" and q: "CHR ''?'' \<notin> set f" and b: "fsencode_len f < 4000"
  shows "safe_resolve plain_fs [''srv'', ''game_data'', ''hlod''] f
           = Inr (Some [''srv'', ''game_data'', ''hlod'', f])
       \<and> do_GET [''srv''] plain_fs (request (''/hlod/'' @ f) v)
           = Raised (OSError ENAMETOOLONG) (request (''/hlod/'' @ f) v)"
proof -
  note d = long_name_not_dots [OF l]
  have pp: "parse_parts f = [f]"
    using d s by (simp add: parse_parts_def split_sep_none)
  have pl: "plain (parse_parts f)" using d n by (simp add: pp plain_def)
  have ab: "\<not> isabs f" using s by (auto simp: isabs_def startswith_def prefix_def)
  have sf: "symlink_free plain_fs" by (simp add: plain_fs_def)
  have pr: "plain [''srv'', ''game_data'', ''hlod'']" by (simp add: plain_def)
  from safe_resolve_plain_parts [OF sf pr pl ab]
  have sr: "safe_resolve plain_fs [''srv'', ''game_data'', ''hlod''] f
      = Inr (Some [''srv'', ''game_data'', ''hlod'', f])"
    by (simp add: pp)
  have tw: "takeWhile (\<lambda>x. x \<noteq> CHR ''?'') f = f"
    using q by (auto simp: takeWhile_eq_all_conv)
  have hp: "hd (split_sep CHR ''?'' (path (request (''/hlod/'' @ f) v))) = ''/hlod/'' @ f"
    by (simp add: request_def startswith_def hd_split_sep tw del: split_sep.simps)
  have ex: "exists plain_fs [''srv'', ''game_data'', ''hlod'', f] = Inl (OSError ENAMETOOLONG)"
    using stat_long_name [OF l n b] by (simp add: exists_def)
  from do_GET_hlod [OF hp, of "[''srv'']" plain_fs] sr ex
  have "do_GET [''srv''] plain_fs (request (''/hlod/'' @ f) v)
      = Raised (OSError ENAMETOOLONG) (request (''/hlod/'' @ f) v)"
    by (simp add: asset_outcome_def serve_file_def GAME_def)
  with sr show ?thesis by simp
qed

text \<open>
  C5 at \<^verbatim>\<open>GET /hlod/\<close> followed by 256 times \<^verbatim>\<open>a\<close>: \<^verbatim>\<open>safe_resolve\<close> returns the path
  (\<^verbatim>\<open>resolve\<close> drops the errors of its own calls), no such file exists, and the
  \<^verbatim>\<open>exists\<close> of \<^verbatim>\<open>_serve_file\<close> raises the \<^verbatim>\<open>OSError\<close> of a name that is too long, which
  nothing catches: the request ends with the exception and no response, not with 404.
\<close>

theorem long_name_raises:
  "safe_resolve plain_fs [''srv'', ''game_data'', ''hlod''] (replicate 256 CHR ''a'')
     = Inr (Some [''srv'', ''game_data'', ''hlod'', replicate 256 CHR ''a''])
   \<and> do_GET [''srv''] plain_fs (request (''/hlod/'' @ replicate 256 CHR ''a'') ''HTTP/1.1'')
     = Raised (OSError ENAMETOOLONG)
         (request (''/hlod/'' @ replicate 256 CHR ''a'') ''HTTP/1.1'')"
  by (rule long_name_request)
    (simp_all add: fsencode_len_replicate NAME_MAX_def)

subsection \<open>Decimal numerals\<close>






subsection \<open>The shapes of an outcome\<close>


lemma asset_file_step:
  "asset_file ((name, d, ext, ct) # routes) fs p h =
     (if startswith p (''/'' @ name @ ''/'')
      then Some (asset_outcome fs d ct (drop (length name + 2) p) h)
      else asset_file routes fs p h)"
  by (simp add: asset_outcome_def Let_def split: sum.splits option.splits)











lemma asset_file_first_match:
  assumes "\<forall>r \<in> set pre. \<not> startswith p (''/'' @ fst r @ ''/'')"
    and "startswith p (''/'' @ name @ ''/'')"
  shows "asset_file (pre @ (name, d, ext, ct) # post) fs p h
    = Some (asset_outcome fs d ct (drop (length name + 2) p) h)"
  using assms
proof (induction pre)
  case Nil
  then show ?case by (simp add: asset_file_step del: asset_file.simps)
next
  case (Cons r pre)
  obtain n' d' e' c' where r: "r = (n', d', e', c')" by (cases r) auto
  from Cons show ?case by (simp add: r asset_file_step del: asset_file.simps)
qed

lemma asset_file_no_match:
  assumes "\<forall>r \<in> set routes. \<not> startswith p (''/'' @ fst r @ ''/'')"
  shows "asset_file routes fs p h = None"
  using assms
proof (induction routes)
  case Nil
  then show ?case by simp
next
  case (Cons r routes)
  obtain n' d' e' c' where r: "r = (n', d', e', c')" by (cases r) auto
  from Cons show ?case by (simp add: r asset_file_step del: asset_file.simps)
qed

lemma send_error_path: "(send_error c h)\<lparr>path := x\<rparr> = send_error c (h\<lparr>path := x\<rparr>)"
  by (simp add: send_error_def wfile_write_def end_headers_def send_header_def
      send_response_def log_request_def log_error_def log_message_def)

lemma serve_json_path: "(serve_json data h)\<lparr>path := x\<rparr> = serve_json data (h\<lparr>path := x\<rparr>)"
  by (simp add: serve_json_def Let_def wfile_write_def end_headers_def send_header_def
      send_response_def log_request_def log_message_def)

lemma serve_file_path: "with_path x (serve_file fs p ct h) = serve_file fs p ct (h\<lparr>path := x\<rparr>)"
  by (simp add: serve_file_def send_error_path wfile_write_def end_headers_def send_header_def
      send_response_def log_request_def log_message_def split: sum.splits bool.splits)

lemma serve_file_not_super: "\<not> is_super (serve_file fs p ct h)"
  by (simp add: serve_file_def split: sum.splits bool.splits)

lemma asset_outcome_path:
  "with_path x (asset_outcome fs d ct f h) = asset_outcome fs d ct f (h\<lparr>path := x\<rparr>)"
  by (simp add: asset_outcome_def serve_file_path send_error_path split: sum.splits option.splits)

lemma asset_outcome_not_super: "\<not> is_super (asset_outcome fs d ct f h)"
  by (simp add: asset_outcome_def serve_file_not_super split: sum.splits option.splits)

lemma asset_file_path:
  "map_option (with_path x) (asset_file routes fs p h) = asset_file routes fs p (h\<lparr>path := x\<rparr>)"
proof (induction routes)
  case Nil
  then show ?case by simp
next
  case (Cons r routes)
  obtain n d e c where r: "r = (n, d, e, c)" by (cases r) auto
  from Cons show ?case
    by (simp add: r asset_file_step asset_outcome_path del: asset_file.simps)
qed

lemma asset_file_not_super: "asset_file routes fs p h = Some out \<Longrightarrow> \<not> is_super out"
proof (induction routes)
  case Nil
  then show ?case by simp
next
  case (Cons r routes)
  obtain n d e c where r: "r = (n, d, e, c)" by (cases r) auto
  from Cons show ?case
    by (auto simp: r asset_file_step asset_outcome_not_super simp del: asset_file.simps
        split: if_splits)
qed

lemma takeWhile_upto_sep:
  "takeWhile (\<lambda>x. x \<noteq> c) (P @ c # Q) = takeWhile (\<lambda>x. x \<noteq> c) P"
  by (induction P) simp_all

lemma hd_split_query: "hd (split_sep c (P @ c # Q)) = hd (split_sep c P)"
  by (simp add: hd_split_sep takeWhile_upto_sep)

lemma dispatch_no_route:
  assumes "hd (split_sep CHR ''?'' (path g)) = p"
    and "map_of singles p = None"
    and "(if startswith p ''/list_'' then map_of assets (drop 6 p) else None) = None"
  shows "dispatch singles assets fs g =
         (case asset_file assets fs p g of
            Some out \<Rightarrow> out
          | None \<Rightarrow> Super (if p = ''/'' then g\<lparr>path := ''/index.html''\<rparr> else g))"
  using assms by (simp add: dispatch_def Let_def)

lemma dispatch_same_path:
  assumes e: "hd (split_sep CHR ''?'' y) = hd (split_sep CHR ''?'' x)"
  shows "is_super (dispatch singles assets fs (h\<lparr>path := y\<rparr>))
       = is_super (dispatch singles assets fs (h\<lparr>path := x\<rparr>))
     \<and> (\<not> is_super (dispatch singles assets fs (h\<lparr>path := x\<rparr>)) \<longrightarrow>
         with_path x (dispatch singles assets fs (h\<lparr>path := y\<rparr>))
           = dispatch singles assets fs (h\<lparr>path := x\<rparr>))"
proof -
  define p where "p = hd (split_sep CHR ''?'' x)"
  have py: "hd (split_sep CHR ''?'' y) = p" using e by (simp add: p_def)
  show ?thesis
  proof (cases "map_of singles p")
    case (Some a)
    obtain f ct where a: "a = (f, ct)" by (cases a) auto
    from Some show ?thesis
      by (simp add: dispatch_def Let_def py a serve_file_not_super serve_file_path flip: p_def)
  next
    case None
    note single = this
    show ?thesis
    proof (cases "if startswith p ''/list_'' then map_of assets (drop 6 p) else None")
      case (Some a)
      obtain d ext ct where a: "a = (d, ext, ct)" by (cases a) auto
      from single Some show ?thesis
        by (cases "list_files fs d ext")
          (simp_all add: dispatch_def Let_def py a serve_json_path flip: p_def)
    next
      case None
      have px: "hd (split_sep CHR ''?'' (path (h\<lparr>path := x\<rparr>))) = p"
        by (simp add: p_def)
      have py': "hd (split_sep CHR ''?'' (path (h\<lparr>path := y\<rparr>))) = p"
        by (simp add: py)
      note dx = dispatch_no_route [OF px single None, of fs]
      note dy = dispatch_no_route [OF py' single None, of fs]
      show ?thesis
      proof (cases "asset_file assets fs p (h\<lparr>path := y\<rparr>)")
        case None
        with asset_file_path [of x assets fs p "h\<lparr>path := y\<rparr>"]
        have "asset_file assets fs p (h\<lparr>path := x\<rparr>) = None" by simp
        with None dx dy show ?thesis by simp
      next
        case (Some out)
        with asset_file_path [of x assets fs p "h\<lparr>path := y\<rparr>"]
        have ox: "asset_file assets fs p (h\<lparr>path := x\<rparr>) = Some (with_path x out)" by simp
        from asset_file_not_super [OF Some] asset_file_not_super [OF ox] Some ox dx dy
        show ?thesis by simp
      qed
    qed
  qed
qed

subsection \<open>Dispatch\<close>

text \<open>
  C4. The rules are tried in a fixed order and the first that matches answers, for any
  two route tables: a path that is a key of the single-file table is served from that
  table; otherwise a \<^verbatim>\<open>/list_<name>\<close> path with a known name gets the listing; otherwise
  the first asset route, in table order, whose prefix \<^verbatim>\<open>/<name>/\<close> matches answers;
  otherwise the request goes to the static handler, with \<^verbatim>\<open>/\<close> rewritten to
  \<^verbatim>\<open>/index.html\<close>. In particular \<^verbatim>\<open>/manifest\<close> is served from the single-file table
  whatever the asset table is.
\<close>

theorem dispatch_priority:
  fixes singles :: single_routes and assets :: asset_routes and fs :: node and h :: handler
  defines "p \<equiv> hd (split_sep CHR ''?'' (path h))"
  defines "listing \<equiv> startswith p ''/list_'' \<and> map_of assets (drop 6 p) \<noteq> None"
  shows "(\<forall>f ct. map_of singles p = Some (f, ct) \<longrightarrow>
            dispatch singles assets fs h = serve_file fs f ct h)
       \<and> (\<forall>d ext ct. map_of singles p = None \<and> startswith p ''/list_''
              \<and> map_of assets (drop 6 p) = Some (d, ext, ct) \<longrightarrow>
            dispatch singles assets fs h =
              (case list_files fs d ext of
                 Inl e \<Rightarrow> Raised e h
               | Inr names \<Rightarrow> Done (serve_json names h)))
       \<and> (\<forall>pre name d ext ct post. map_of singles p = None \<and> \<not> listing
              \<and> assets = pre @ (name, d, ext, ct) # post
              \<and> (\<forall>r \<in> set pre. \<not> startswith p (''/'' @ fst r @ ''/''))
              \<and> startswith p (''/'' @ name @ ''/'') \<longrightarrow>
            dispatch singles assets fs h
              = asset_outcome fs d ct (drop (length name + 2) p) h)
       \<and> (map_of singles p = None \<and> \<not> listing
              \<and> (\<forall>r \<in> set assets. \<not> startswith p (''/'' @ fst r @ ''/'')) \<longrightarrow>
            dispatch singles assets fs h
              = Super (if p = ''/'' then h\<lparr>path := ''/index.html''\<rparr> else h))
       \<and> (\<forall>base v. dispatch (SINGLE_FILE_ROUTES base) assets fs (request ''/manifest'' v)
            = serve_file fs (base @ [''manifests'', ''android_manifest.json''])
                ''application/json'' (request ''/manifest'' v))"
proof -
  have a: "\<forall>f ct. map_of singles p = Some (f, ct) \<longrightarrow>
            dispatch singles assets fs h = serve_file fs f ct h"
    by (simp add: dispatch_def Let_def flip: p_def)
  have b: "\<forall>d ext ct. map_of singles p = None \<and> startswith p ''/list_''
              \<and> map_of assets (drop 6 p) = Some (d, ext, ct) \<longrightarrow>
            dispatch singles assets fs h =
              (case list_files fs d ext of
                 Inl e \<Rightarrow> Raised e h
               | Inr names \<Rightarrow> Done (serve_json names h))"
    by (simp add: dispatch_def Let_def flip: p_def)
  have n: "map_of singles p = None \<and> \<not> listing \<Longrightarrow> dispatch singles assets fs h =
         (case asset_file assets fs p h of Some out \<Rightarrow> out
          | None \<Rightarrow> Super (if p = ''/'' then h\<lparr>path := ''/index.html''\<rparr> else h))"
    by (auto simp: dispatch_def Let_def listing_def simp flip: p_def split: option.splits)
  have c: "\<forall>pre name d ext ct post. map_of singles p = None \<and> \<not> listing
              \<and> assets = pre @ (name, d, ext, ct) # post
              \<and> (\<forall>r \<in> set pre. \<not> startswith p (''/'' @ fst r @ ''/''))
              \<and> startswith p (''/'' @ name @ ''/'') \<longrightarrow>
            dispatch singles assets fs h
              = asset_outcome fs d ct (drop (length name + 2) p) h"
  proof (intro allI impI, elim conjE)
    fix pre name d ext ct post
    assume s: "map_of singles p = None" "\<not> listing"
      and r: "assets = pre @ (name, d, ext, ct) # post"
      and m: "\<forall>r \<in> set pre. \<not> startswith p (''/'' @ fst r @ ''/'')"
        "startswith p (''/'' @ name @ ''/'')"
    have "asset_file assets fs p h
        = Some (asset_outcome fs d ct (drop (length name + 2) p) h)"
      unfolding r using m by (rule asset_file_first_match)
    with n s show "dispatch singles assets fs h
        = asset_outcome fs d ct (drop (length name + 2) p) h"
      by simp
  qed
  have d: "map_of singles p = None \<and> \<not> listing
              \<and> (\<forall>r \<in> set assets. \<not> startswith p (''/'' @ fst r @ ''/'')) \<longrightarrow>
            dispatch singles assets fs h
              = Super (if p = ''/'' then h\<lparr>path := ''/index.html''\<rparr> else h)"
  proof (intro impI, elim conjE)
    assume s: "map_of singles p = None" "\<not> listing"
      and m: "\<forall>r \<in> set assets. \<not> startswith p (''/'' @ fst r @ ''/'')"
    from m have "asset_file assets fs p h = None" by (rule asset_file_no_match)
    with n s show "dispatch singles assets fs h
        = Super (if p = ''/'' then h\<lparr>path := ''/index.html''\<rparr> else h)"
      by simp
  qed
  have e: "\<forall>base v. dispatch (SINGLE_FILE_ROUTES base) assets fs (request ''/manifest'' v)
            = serve_file fs (base @ [''manifests'', ''android_manifest.json''])
                ''application/json'' (request ''/manifest'' v)"
    by (simp add: dispatch_def Let_def SINGLE_FILE_ROUTES_def request_def)
  show ?thesis by (rule conjI [OF a conjI [OF b conjI [OF c conjI [OF d e]]]])
qed

theorem dispatch_priority_witness:
  "map_of pinned_routes (hd (split_sep CHR ''?'' (path (request ''/hlod/a.obj'' ''HTTP/1.1''))))
      = Some ([''srv'', ''secret.obj''], ''model/obj'')
   \<and> dispatch pinned_routes (ASSET_ROUTES [''srv'']) plain_fs (request ''/hlod/a.obj'' ''HTTP/1.1'')
      = serve_file plain_fs [''srv'', ''secret.obj''] ''model/obj''
          (request ''/hlod/a.obj'' ''HTTP/1.1'')
   \<and> do_GET [''srv''] plain_fs (request ''/hlod/a.obj'' ''HTTP/1.1'')
      = serve_file plain_fs [''srv'', ''game_data'', ''hlod'', ''a.obj''] ''model/obj''
          (request ''/hlod/a.obj'' ''HTTP/1.1'')
   \<and> do_GET [''srv''] plain_fs (request ''/list_hlod'' ''HTTP/1.1'')
      = Done (serve_json [''a.obj'', ''b.obj''] (request ''/list_hlod'' ''HTTP/1.1''))
   \<and> do_GET [''srv''] plain_fs (request ''/nothing'' ''HTTP/1.1'')
      = Super (request ''/nothing'' ''HTTP/1.1'')"
proof -
  let ?S = "SINGLE_FILE_ROUTES [''srv'']" and ?A = "ASSET_ROUTES [''srv'']"
  let ?h1 = "request ''/hlod/a.obj'' ''HTTP/1.1''"
  let ?h2 = "request ''/list_hlod'' ''HTTP/1.1''"
  let ?h4 = "request ''/nothing'' ''HTTP/1.1''"
  have a: "map_of pinned_routes (hd (split_sep CHR ''?'' (path ?h1)))
      = Some ([''srv'', ''secret.obj''], ''model/obj'')"
    by code_simp
  note a' = dispatch_priority [where singles = pinned_routes and assets = ?A and fs = plain_fs
      and h = ?h1, THEN conjunct1, rule_format, OF a]
  have b: "map_of ?S (hd (split_sep CHR ''?'' (path ?h2))) = None
      \<and> startswith (hd (split_sep CHR ''?'' (path ?h2))) ''/list_''
      \<and> map_of ?A (drop 6 (hd (split_sep CHR ''?'' (path ?h2))))
          = Some ([''srv'', ''game_data'', ''hlod''], ''.obj'', ''model/obj'')"
    by code_simp
  have lf: "list_files plain_fs [''srv'', ''game_data'', ''hlod''] ''.obj''
      = Inr [''a.obj'', ''b.obj'']"
    by code_simp
  note b' = dispatch_priority [where singles = ?S and assets = ?A and fs = plain_fs
      and h = ?h2, THEN conjunct2, THEN conjunct1,
      rule_format, OF b]
  have c: "map_of ?S (hd (split_sep CHR ''?'' (path ?h1))) = None
      \<and> \<not> (startswith (hd (split_sep CHR ''?'' (path ?h1))) ''/list_''
           \<and> map_of ?A (drop 6 (hd (split_sep CHR ''?'' (path ?h1)))) \<noteq> None)
      \<and> ?A = [] @ (''hlod'', [''srv'', ''game_data'', ''hlod''], ''.obj'', ''model/obj'')
            # tl ?A
      \<and> (\<forall>r \<in> set []. \<not> startswith (hd (split_sep CHR ''?'' (path ?h1))) (''/'' @ fst r @ ''/''))
      \<and> startswith (hd (split_sep CHR ''?'' (path ?h1))) (''/'' @ ''hlod'' @ ''/'')"
    by code_simp
  note c' = dispatch_priority [where singles = ?S and assets = ?A and fs = plain_fs
      and h = ?h1, THEN conjunct2, THEN conjunct2,
      THEN conjunct1, rule_format, OF c]
  have sr: "safe_resolve plain_fs [''srv'', ''game_data'', ''hlod'']
        (drop (length ''hlod'' + 2) (hd (split_sep CHR ''?'' (path ?h1))))
      = Inr (Some [''srv'', ''game_data'', ''hlod'', ''a.obj''])"
    by code_simp
  have d: "map_of ?S (hd (split_sep CHR ''?'' (path ?h4))) = None
      \<and> \<not> (startswith (hd (split_sep CHR ''?'' (path ?h4))) ''/list_''
           \<and> map_of ?A (drop 6 (hd (split_sep CHR ''?'' (path ?h4)))) \<noteq> None)
      \<and> (\<forall>r \<in> set ?A. \<not> startswith (hd (split_sep CHR ''?'' (path ?h4))) (''/'' @ fst r @ ''/''))"
    by code_simp
  note d' = dispatch_priority [where singles = ?S and assets = ?A and fs = plain_fs
      and h = ?h4, THEN conjunct2, THEN conjunct2,
      THEN conjunct2, THEN conjunct1, rule_format, OF d]
  have p4: "hd (split_sep CHR ''?'' (path ?h4)) \<noteq> ''/''" by (simp add: request_def)
  from a a' b' c' d' lf sr p4 show ?thesis
    by (simp add: do_GET_def asset_outcome_def)
qed

text \<open>
  C6. A path \<^verbatim>\<open>/list_<name>\<close> with an unknown name gets no 404 from the listing rule: over
  any tables the request goes on to the asset routes and then to the static handler, and
  with the tables of the server, where no asset prefix can match such a path, it reaches
  the static handler with \<^verbatim>\<open>self.path\<close> unchanged.
\<close>

theorem unknown_listing_falls_through:
  fixes singles :: single_routes and assets :: asset_routes and fs :: node and h :: handler
  defines "p \<equiv> hd (split_sep CHR ''?'' (path h))"
  shows "(p = ''/list_'' @ n \<and> map_of assets n = None \<and> map_of singles p = None \<longrightarrow>
            dispatch singles assets fs h =
              (case asset_file assets fs p h of Some out \<Rightarrow> out | None \<Rightarrow> Super h))
       \<and> (p = ''/list_'' @ n \<and> n \<notin> fst ` set (ASSET_ROUTES base) \<longrightarrow>
            do_GET base fs h = Super h)"
proof -
  have a: "p = ''/list_'' @ n \<and> map_of assets n = None \<and> map_of singles p = None \<longrightarrow>
            dispatch singles assets fs h =
              (case asset_file assets fs p h of Some out \<Rightarrow> out | None \<Rightarrow> Super h)"
    by (auto simp: dispatch_def Let_def startswith_def simp flip: p_def)
  have b: "p = ''/list_'' @ n \<and> n \<notin> fst ` set (ASSET_ROUTES base) \<longrightarrow>
            do_GET base fs h = Super h"
    by (auto simp: do_GET_def dispatch_def Let_def startswith_def SINGLE_FILE_ROUTES_def
        ASSET_ROUTES_def simp flip: p_def)
  show ?thesis by (rule conjI [OF a b])
qed

theorem unknown_listing_falls_through_witness:
  "hd (split_sep CHR ''?'' (path (request ''/list_zzz?x'' ''HTTP/1.1''))) = ''/list_'' @ ''zzz''
   \<and> ''zzz'' \<notin> fst ` set (ASSET_ROUTES [''srv''])
   \<and> map_of (ASSET_ROUTES [''srv'']) ''zzz'' = None
   \<and> map_of (SINGLE_FILE_ROUTES [''srv'']) ''/list_zzz'' = None
   \<and> dispatch (SINGLE_FILE_ROUTES [''srv'']) (ASSET_ROUTES [''srv'']) plain_fs
          (request ''/list_zzz?x'' ''HTTP/1.1'')
        = (case asset_file (ASSET_ROUTES [''srv'']) plain_fs ''/list_zzz''
                  (request ''/list_zzz?x'' ''HTTP/1.1'') of
             Some out \<Rightarrow> out
           | None \<Rightarrow> Super (request ''/list_zzz?x'' ''HTTP/1.1''))
   \<and> do_GET [''srv''] plain_fs (request ''/list_zzz?x'' ''HTTP/1.1'')
        = Super (request ''/list_zzz?x'' ''HTTP/1.1'')"
proof -
  let ?h = "request ''/list_zzz?x'' ''HTTP/1.1''"
  have a: "hd (split_sep CHR ''?'' (path ?h)) = ''/list_'' @ ''zzz''
      \<and> ''zzz'' \<notin> fst ` set (ASSET_ROUTES [''srv''])"
    by (simp add: request_def ASSET_ROUTES_def)
  have m: "map_of (ASSET_ROUTES [''srv'']) ''zzz'' = None"
    by (simp add: ASSET_ROUTES_def)
  have k: "map_of (SINGLE_FILE_ROUTES [''srv'']) ''/list_zzz'' = None"
    by (simp add: SINGLE_FILE_ROUTES_def)
  have g: "hd (split_sep CHR ''?'' (path ?h)) = ''/list_'' @ ''zzz''
      \<and> map_of (ASSET_ROUTES [''srv'']) ''zzz'' = None
      \<and> map_of (SINGLE_FILE_ROUTES [''srv'']) (hd (split_sep CHR ''?'' (path ?h))) = None"
    using a m k by simp
  note u = unknown_listing_falls_through [where h = ?h and n = "''zzz''"
      and singles = "SINGLE_FILE_ROUTES [''srv'']" and assets = "ASSET_ROUTES [''srv'']"
      and fs = plain_fs and base = "[''srv'']"]
  from u [THEN conjunct1, rule_format, OF g] u [THEN conjunct2, rule_format, OF a] a m k
  show ?thesis by simp
qed

text \<open>
  C10. Only the part of the request path before the first \<^verbatim>\<open>?\<close> decides the route: a
  request for \<open>P\<close> followed by \<^verbatim>\<open>?\<close> and \<open>Q\<close> goes to the static handler exactly when
  the request for \<open>P\<close> does, and otherwise ends as the request for \<open>P\<close> ends, with the
  same status line, headers, body, log and exception; only \<^verbatim>\<open>self.path\<close> differs.
  \<^verbatim>\<open>/manifest?v=2\<close> is served from the \<^verbatim>\<open>/manifest\<close> entry of the single-file table.
\<close>

theorem query_ignored:
  fixes base :: path and fs :: node and h :: handler and P Q :: string
  shows "is_super (do_GET base fs (h\<lparr>path := P @ ''?'' @ Q\<rparr>))
           = is_super (do_GET base fs (h\<lparr>path := P\<rparr>))
       \<and> (\<not> is_super (do_GET base fs (h\<lparr>path := P\<rparr>)) \<longrightarrow>
            with_path P (do_GET base fs (h\<lparr>path := P @ ''?'' @ Q\<rparr>))
              = do_GET base fs (h\<lparr>path := P\<rparr>))
       \<and> do_GET base fs (h\<lparr>path := ''/manifest?v=2''\<rparr>)
            = serve_file fs (base @ [''manifests'', ''android_manifest.json''])
                ''application/json'' (h\<lparr>path := ''/manifest?v=2''\<rparr>)"
proof -
  have e: "hd (split_sep CHR ''?'' (P @ ''?'' @ Q)) = hd (split_sep CHR ''?'' P)"
    using hd_split_query [of "CHR ''?''" P Q] by simp
  note d = dispatch_same_path [OF e, of "SINGLE_FILE_ROUTES base" "ASSET_ROUTES base" fs h]
  have m: "do_GET base fs (h\<lparr>path := ''/manifest?v=2''\<rparr>)
            = serve_file fs (base @ [''manifests'', ''android_manifest.json''])
                ''application/json'' (h\<lparr>path := ''/manifest?v=2''\<rparr>)"
    by (simp add: do_GET_def dispatch_def Let_def SINGLE_FILE_ROUTES_def)
  from d m show ?thesis unfolding do_GET_def by blast
qed

theorem query_ignored_witness:
  "\<not> is_super (do_GET [''srv''] plain_fs ((request ''/'' ''HTTP/1.1'')\<lparr>path := ''/list_hlod''\<rparr>))
   \<and> with_path ''/list_hlod''
        (do_GET [''srv''] plain_fs
           ((request ''/'' ''HTTP/1.1'')\<lparr>path := ''/list_hlod'' @ ''?'' @ ''v=2''\<rparr>))
      = do_GET [''srv''] plain_fs ((request ''/'' ''HTTP/1.1'')\<lparr>path := ''/list_hlod''\<rparr>)"
proof -
  have a: "\<not> is_super (do_GET [''srv''] plain_fs
      ((request ''/'' ''HTTP/1.1'')\<lparr>path := ''/list_hlod''\<rparr>))"
    by code_simp
  from query_ignored [where base = "[''srv'']" and fs = plain_fs
      and h = "request ''/'' ''HTTP/1.1''" and P = "''/list_hlod''" and Q = "''v=2''",
      THEN conjunct2, THEN conjunct1, rule_format, OF a] a
  show ?thesis by simp
qed

subsection \<open>Listings, lengths and the log\<close>

text \<open>
  C7. \<^verbatim>\<open>list_files\<close> returns the empty list, not an error, for a directory that does
  not exist. For a directory it returns the names of the entries of that directory that
  end with the extension, each as often as it is listed, sorted in ascending order of
  the strings: nothing from subdirectories, and names only. For the entries \<^verbatim>\<open>b.obj\<close>,
  \<^verbatim>\<open>a.obj\<close>, \<^verbatim>\<open>c.txt\<close> and the extension \<^verbatim>\<open>.obj\<close> the result is \<^verbatim>\<open>a.obj\<close>, \<^verbatim>\<open>b.obj\<close>.
\<close>

theorem list_files_sorted_children:
  "(exists fs d = Inr False \<longrightarrow> list_files fs d ext = Inr [])
   \<and> (\<forall>es. stat fs d = Inr (Dir es) \<longrightarrow>
        (\<exists>r. list_files fs d ext = Inr r
           \<and> r = sort (filter (\<lambda>f. endswith f ext) (map fst es))
           \<and> sorted r
           \<and> mset r = filter_mset (\<lambda>f. suffix ext f) (mset (map fst es))))
   \<and> list_files terrain_fs [''srv'', ''game_data'', ''terrain''] ''.obj''
        = Inr [''a.obj'', ''b.obj'']"
proof -
  have a: "exists fs d = Inr False \<longrightarrow> list_files fs d ext = Inr []"
    by (simp add: list_files_def)
  have b: "\<forall>es. stat fs d = Inr (Dir es) \<longrightarrow>
        (\<exists>r. list_files fs d ext = Inr r
           \<and> r = sort (filter (\<lambda>f. endswith f ext) (map fst es))
           \<and> sorted r
           \<and> mset r = filter_mset (\<lambda>f. suffix ext f) (mset (map fst es)))"
    by (simp add: list_files_def exists_def listdir_def endswith_def)
  have c: "list_files terrain_fs [''srv'', ''game_data'', ''terrain''] ''.obj''
        = Inr [''a.obj'', ''b.obj'']"
    by code_simp
  show ?thesis by (rule conjI [OF a conjI [OF b c]])
qed

theorem list_files_sorted_children_witness:
  "exists plain_fs [''srv'', ''game_data'', ''nothere''] = Inr False
   \<and> list_files plain_fs [''srv'', ''game_data'', ''nothere''] ''.obj'' = Inr []
   \<and> stat plain_fs [''srv'', ''game_data'', ''hlod'']
       = Inr (Dir [(''b.obj'', File ''v 1 1 1''), (''a.obj'', File ''v 0 0 0''),
            (''c.txt'', File ''notes''), (''sub'', Dir [(''d.obj'', File ''v 2 2 2'')])])
   \<and> list_files plain_fs [''srv'', ''game_data'', ''hlod''] ''.obj''
       = Inr [''a.obj'', ''b.obj'']"
proof -
  have h1: "exists plain_fs [''srv'', ''game_data'', ''nothere''] = Inr False"
    by code_simp
  have h2: "stat plain_fs [''srv'', ''game_data'', ''hlod'']
       = Inr (Dir [(''b.obj'', File ''v 1 1 1''), (''a.obj'', File ''v 0 0 0''),
            (''c.txt'', File ''notes''), (''sub'', Dir [(''d.obj'', File ''v 2 2 2'')])])"
    by code_simp
  have s: "sort (filter (\<lambda>f. endswith f ''.obj'') (map fst
       [(''b.obj'', File ''v 1 1 1''), (''a.obj'', File ''v 0 0 0''),
        (''c.txt'', File ''notes''), (''sub'', Dir [(''d.obj'', File ''v 2 2 2'')])]))
      = [''a.obj'', ''b.obj'']"
    by code_simp
  from list_files_sorted_children [of plain_fs "[''srv'', ''game_data'', ''nothere'']" "''.obj''"] h1
  have c1: "list_files plain_fs [''srv'', ''game_data'', ''nothere''] ''.obj'' = Inr []"
    by blast
  from list_files_sorted_children [of plain_fs "[''srv'', ''game_data'', ''hlod'']" "''.obj''"] h2
  have "list_files plain_fs [''srv'', ''game_data'', ''hlod''] ''.obj''
     = Inr (sort (filter (\<lambda>f. endswith f ''.obj'') (map fst
       [(''b.obj'', File ''v 1 1 1''), (''a.obj'', File ''v 0 0 0''),
        (''c.txt'', File ''notes''), (''sub'', Dir [(''d.obj'', File ''v 2 2 2'')])])))"
    by blast
  with s have c2: "list_files plain_fs [''srv'', ''game_data'', ''hlod''] ''.obj''
       = Inr [''a.obj'', ''b.obj'']"
    by simp
  from h1 c1 h2 c2 show ?thesis by simp
qed





end
